theory Spec2Isabelle
  imports Complex_Main "HOL-Library.Word" "HOL-Library.Multiset" "HOL-Library.Sublist"
begin

section \<open>Fridge items: the REST handlers of backend/server.js and their table\<close>

text \<open>
  The server is a set of Express handlers, each of which sends one parameterised SQL
  statement through a connection pool and turns the outcome into an HTTP response.
  The handlers are embedded as functions from the database state to a response and the
  next database state. The SQL engine is not part of the repository; its statements are
  given the meaning PostgreSQL gives them on the schema that \<open>createTable\<close> declares.
\<close>

subsection \<open>JavaScript strings and \<open>String.prototype.trim\<close>\<close>

text \<open>
  A JavaScript string is a sequence of 16-bit UTF-16 code units. \<open>utf16\<close> writes an
  ASCII literal as such a sequence.
\<close>

type_synonym code_unit = "16 word"
type_synonym js_string = "code_unit list"

definition utf16 :: "string \<Rightarrow> js_string" where
  "utf16 cs = map (\<lambda>c. word_of_nat (of_char c)) cs"

text \<open>
  \<open>trim\<close> removes WhiteSpace and LineTerminator code points from both ends: TAB, LF, VT,
  FF, CR, SPACE, NBSP, U+1680, U+2000..U+200A, U+2028, U+2029, U+202F, U+205F, U+3000
  and U+FEFF. All of them are single code units.
\<close>

definition is_white_space :: "code_unit \<Rightarrow> bool" where
  "is_white_space c \<longleftrightarrow>
     (0x0009 \<le> c \<and> c \<le> 0x000D) \<or> c = 0x0020 \<or> c = 0x00A0 \<or> c = 0x1680
     \<or> (0x2000 \<le> c \<and> c \<le> 0x200A) \<or> c = 0x2028 \<or> c = 0x2029 \<or> c = 0x202F
     \<or> c = 0x205F \<or> c = 0x3000 \<or> c = 0xFEFF"

definition trimStart :: "js_string \<Rightarrow> js_string" where
  "trimStart s = dropWhile is_white_space s"

definition trimEnd :: "js_string \<Rightarrow> js_string" where
  "trimEnd s = rev (dropWhile is_white_space (rev s))"

definition trim :: "js_string \<Rightarrow> js_string" where
  "trim s = trimEnd (trimStart s)"

subsection \<open>Request bodies\<close>

text \<open>
  \<open>express.json()\<close> hands the handler a parsed JSON value. A JSON number is a double:
  every finite double is a rational, and an out-of-range literal parses to an infinity.
\<close>

datatype js_number = Finite rat | PosInfinity | NegInfinity

datatype json =
    JNull
  | JBool bool
  | JNumber js_number
  | JString js_string
  | JArray "json list"
  | JObject "(js_string \<times> json) list"

text \<open>
  The POST handler destructures \<open>name\<close> and \<open>isInFridge\<close> from the body; \<open>None\<close> is a
  property that is absent (\<open>undefined\<close>).
\<close>

record post_body =
  name_prop :: "json option"
  isInFridge_prop :: "json option"

subsection \<open>The table\<close>

text \<open>
  \<^verbatim>\<open>CREATE TABLE IF NOT EXISTS fridge_items (
    id SERIAL PRIMARY KEY,
    name VARCHAR(255) NOT NULL,
    is_in_fridge BOOLEAN DEFAULT true,
    created_at TIMESTAMP DEFAULT CURRENT_TIMESTAMP)\<close>
  Only \<open>id\<close> and \<open>name\<close> are declared NOT NULL; the other two columns admit NULL
  (\<open>None\<close>). The column \<open>id\<close> is the field \<open>item_id\<close>, since \<open>id\<close> is the
  identity function of HOL. A timestamp is a count of microseconds. The database is the
  stored rows in the order a scan visits them, and the last value handed out by the
  sequence behind \<open>id\<close>.
\<close>

record fridge_item =
  item_id :: int
  name :: js_string
  is_in_fridge :: "bool option"
  created_at :: "int option"

record db =
  fridge_items :: "fridge_item list"
  fridge_items_id_seq :: int

datatype pg_error =
    ConnectionFailure
  | CharacterNotInRepertoire
  | InvalidTextRepresentation
  | NumericValueOutOfRange
  | StringDataRightTruncation
  | SequenceLimitExceeded
  | UniqueViolation

subsection \<open>Parameters as the server reads them\<close>

text \<open>
  The driver sends every parameter as UTF-8 text. An unpaired surrogate is written as
  U+FFFD; the server rejects text that contains U+0000.
\<close>

definition is_lead :: "code_unit \<Rightarrow> bool" where
  "is_lead u \<longleftrightarrow> 0xD800 \<le> u \<and> u \<le> 0xDBFF"

definition is_trail :: "code_unit \<Rightarrow> bool" where
  "is_trail u \<longleftrightarrow> 0xDC00 \<le> u \<and> u \<le> 0xDFFF"

definition lone :: "code_unit \<Rightarrow> code_unit" where
  "lone u = (if is_lead u \<or> is_trail u then 0xFFFD else u)"

fun to_utf8_text :: "js_string \<Rightarrow> js_string" where
  "to_utf8_text [] = []"
| "to_utf8_text [u] = [lone u]"
| "to_utf8_text (u # v # us) =
     (if is_lead u \<and> is_trail v then u # v # to_utf8_text us
      else lone u # to_utf8_text (v # us))"

definition text_in :: "js_string \<Rightarrow> pg_error + js_string" where
  "text_in s = (if 0 \<in> set s then Inl CharacterNotInRepertoire else Inr (to_utf8_text s))"

text \<open>
  \<open>VARCHAR(n)\<close> counts characters, so a surrogate pair counts once. \<open>split_chars n s\<close>
  is the first \<open>n\<close> characters of \<open>s\<close> and what follows them. A value longer than \<open>n\<close>
  characters is an error unless everything beyond is spaces, which are then cut off.
\<close>

fun split_chars :: "nat \<Rightarrow> js_string \<Rightarrow> js_string \<times> js_string" where
  "split_chars 0 s = ([], s)"
| "split_chars (Suc n) [] = ([], [])"
| "split_chars (Suc n) [u] = ([u], [])"
| "split_chars (Suc n) (u # v # us) =
     (if is_lead u \<and> is_trail v
      then (case split_chars n us of (a, b) \<Rightarrow> (u # v # a, b))
      else (case split_chars n (v # us) of (a, b) \<Rightarrow> (u # a, b)))"

definition varchar :: "nat \<Rightarrow> js_string \<Rightarrow> pg_error + js_string" where
  "varchar n s =
     (case split_chars n s of (a, b) \<Rightarrow>
        if b = [] then Inr s
        else if list_all (\<lambda>c. c = 0x20) b then Inr a
        else Inl StringDataRightTruncation)"

text \<open>
  The C library's \<open>isspace\<close> and the ASCII case folding of \<open>pg_strncasecmp\<close>, which the
  server's input functions use.
\<close>

definition pg_isspace :: "code_unit \<Rightarrow> bool" where
  "pg_isspace c \<longleftrightarrow> c = 0x20 \<or> (0x09 \<le> c \<and> c \<le> 0x0D)"

definition pg_tolower :: "code_unit \<Rightarrow> code_unit" where
  "pg_tolower c = (if 0x41 \<le> c \<and> c \<le> 0x5A then c + 0x20 else c)"

definition is_digit :: "code_unit \<Rightarrow> bool" where
  "is_digit c \<longleftrightarrow> 0x30 \<le> c \<and> c \<le> 0x39"

text \<open>
  The \<open>integer\<close> input function reads \<open>$1\<close> in \<open>WHERE id = $1\<close>: optional blanks, an
  optional sign, at least one decimal digit, optional blanks; the value must fit in 32
  bits.
\<close>

definition digits_value :: "js_string \<Rightarrow> int" where
  "digits_value ds = foldl (\<lambda>a c. a * 10 + (uint c - 48)) 0 ds"

definition int4in :: "js_string \<Rightarrow> pg_error + int" where
  "int4in s =
     (let s1 = dropWhile pg_isspace s;
          neg = (s1 \<noteq> [] \<and> hd s1 = 0x2D);
          s2 = (if s1 \<noteq> [] \<and> (hd s1 = 0x2D \<or> hd s1 = 0x2B) then tl s1 else s1);
          ds = takeWhile is_digit s2;
          rest = dropWhile is_digit s2;
          v = (if neg then - digits_value ds else digits_value ds)
      in if ds = [] then Inl InvalidTextRepresentation
         else if v < - 2147483648 \<or> 2147483647 < v then Inl NumericValueOutOfRange
         else if dropWhile pg_isspace rest \<noteq> [] then Inl InvalidTextRepresentation
         else Inr v)"

text \<open>
  The \<open>boolean\<close> input function reads \<open>$2\<close> of the INSERT: after blanks are dropped at
  both ends it accepts, without regard to case, a non-empty prefix of \<open>true\<close>, \<open>false\<close>,
  \<open>yes\<close> or \<open>no\<close>, the words \<open>on\<close>, \<open>of\<close> and \<open>off\<close>, and the single characters
  \<open>1\<close> and \<open>0\<close>.
\<close>

definition ci_prefix :: "js_string \<Rightarrow> string \<Rightarrow> bool" where
  "ci_prefix v kw \<longleftrightarrow> prefix (map pg_tolower v) (utf16 kw)"

definition parse_bool :: "js_string \<Rightarrow> pg_error + bool" where
  "parse_bool v =
     (if v = [] then Inl InvalidTextRepresentation
      else if pg_tolower (hd v) = 0x74 \<and> ci_prefix v ''true'' then Inr True
      else if pg_tolower (hd v) = 0x66 \<and> ci_prefix v ''false'' then Inr False
      else if pg_tolower (hd v) = 0x79 \<and> ci_prefix v ''yes'' then Inr True
      else if pg_tolower (hd v) = 0x6E \<and> ci_prefix v ''no'' then Inr False
      else if pg_tolower (hd v) = 0x6F \<and> 2 \<le> length v \<and> ci_prefix v ''on'' then Inr True
      else if pg_tolower (hd v) = 0x6F \<and> 2 \<le> length v \<and> ci_prefix v ''off'' then Inr False
      else if v = [0x31] then Inr True
      else if v = [0x30] then Inr False
      else Inl InvalidTextRepresentation)"

definition boolin :: "js_string \<Rightarrow> pg_error + bool" where
  "boolin s = parse_bool (rev (dropWhile pg_isspace (rev (dropWhile pg_isspace s))))"

text \<open>
  The driver's \<open>prepareValue\<close> sends \<open>null\<close> as NULL, a boolean as \<open>true\<close> or \<open>false\<close>, a
  number by \<open>toString()\<close> (which is \<open>1\<close> or \<open>0\<close> only for the numbers one and zero, and
  otherwise no text the boolean input accepts), a string as it is, and an array or an
  object as a literal that starts with a brace. \<open>bool_param\<close> is the boolean the server
  reads from such a parameter.
\<close>

fun bool_param :: "json \<Rightarrow> pg_error + bool option" where
  "bool_param JNull = Inr None"
| "bool_param (JBool b) = Inr (Some b)"
| "bool_param (JNumber x) =
     (if x = Finite 1 then Inr (Some True)
      else if x = Finite 0 then Inr (Some False)
      else Inl InvalidTextRepresentation)"
| "bool_param (JString s) =
     (case text_in s of Inl e \<Rightarrow> Inl e
      | Inr t \<Rightarrow> (case boolin t of Inl e \<Rightarrow> Inl e | Inr b \<Rightarrow> Inr (Some b)))"
| "bool_param (JArray xs) = Inl InvalidTextRepresentation"
| "bool_param (JObject kvs) = Inl InvalidTextRepresentation"

definition int_param :: "js_string \<Rightarrow> pg_error + int" where
  "int_param s = (case text_in s of Inl e \<Rightarrow> Inl e | Inr t \<Rightarrow> int4in t)"

subsection \<open>The statements\<close>

text \<open>
  A statement either fails with an error or returns rows; both leave a database state
  behind. \<open>pool.query\<close> runs a statement when the pool reaches the server (\<open>Up\<close>) and
  rejects with a connection error when it does not (\<open>Down\<close>).
\<close>

datatype link = Up | Down

type_synonym 'a statement = "db \<Rightarrow> (pg_error + 'a) \<times> db"

definition pool_query :: "link \<Rightarrow> 'a statement \<Rightarrow> 'a statement" where
  "pool_query l stmt d = (case l of Down \<Rightarrow> (Inl ConnectionFailure, d) | Up \<Rightarrow> stmt d)"

text \<open>
  \<^verbatim>\<open>SELECT * FROM fridge_items ORDER BY created_at DESC\<close>.
  In descending order NULL comes first. Rows with the same \<open>created_at\<close> are kept in the
  order of the scan.
\<close>

definition desc_le :: "int option \<Rightarrow> int option \<Rightarrow> bool" where
  "desc_le a b =
     (case a of None \<Rightarrow> True
      | Some x \<Rightarrow> (case b of None \<Rightarrow> False | Some y \<Rightarrow> y \<le> x))"

fun insert_desc :: "fridge_item \<Rightarrow> fridge_item list \<Rightarrow> fridge_item list" where
  "insert_desc r [] = [r]"
| "insert_desc r (q # qs) =
     (if desc_le (created_at r) (created_at q) then r # q # qs else q # insert_desc r qs)"

definition order_by_created_at_desc :: "fridge_item list \<Rightarrow> fridge_item list" where
  "order_by_created_at_desc rs = foldr insert_desc rs []"

definition select_items :: "fridge_item list statement" where
  "select_items d = (Inr (order_by_created_at_desc (fridge_items d)), d)"

text \<open>
  \<^verbatim>\<open>INSERT INTO fridge_items (name, is_in_fridge) VALUES ($1, $2) RETURNING *\<close>.
  The parameters are read and the name is coerced to \<open>VARCHAR(255)\<close> first; a name
  that is too long is rejected before the sequence is asked. The row then takes the
  next value of the sequence as its \<open>id\<close> (a sequence never hands a value back),
  \<open>created_at\<close> is the server's clock \<open>now\<close>, and the primary key rejects an \<open>id\<close>
  that is already stored.
\<close>

definition insert_item :: "int \<Rightarrow> js_string \<Rightarrow> json \<Rightarrow> fridge_item list statement" where
  "insert_item now p1 p2 d =
     (case text_in p1 of Inl e \<Rightarrow> (Inl e, d) | Inr t \<Rightarrow>
      case bool_param p2 of Inl e \<Rightarrow> (Inl e, d) | Inr b \<Rightarrow>
      case varchar 255 t of Inl e \<Rightarrow> (Inl e, d) | Inr nm \<Rightarrow>
      if 2147483647 \<le> fridge_items_id_seq d then (Inl SequenceLimitExceeded, d)
      else let i = fridge_items_id_seq d + 1; d1 = d\<lparr>fridge_items_id_seq := i\<rparr> in
      if i \<in> set (map item_id (fridge_items d)) then (Inl UniqueViolation, d1)
      else let r = \<lparr>item_id = i, name = nm, is_in_fridge = b, created_at = Some now\<rparr>
           in (Inr [r], d1\<lparr>fridge_items := fridge_items d @ [r]\<rparr>))"

text \<open>
  \<^verbatim>\<open>UPDATE fridge_items SET is_in_fridge = NOT is_in_fridge WHERE id = $1 RETURNING *\<close>.
  \<open>NOT NULL\<close> is NULL. The UPDATE writes a new version of each row it matches, and a
  scan meets the new versions after the rows that were not touched.
\<close>

definition toggled :: "fridge_item \<Rightarrow> fridge_item" where
  "toggled r = r\<lparr>is_in_fridge := map_option Not (is_in_fridge r)\<rparr>"

definition toggle_rows :: "int \<Rightarrow> fridge_item list \<Rightarrow> fridge_item list" where
  "toggle_rows i rs =
     filter (\<lambda>r. item_id r \<noteq> i) rs @ map toggled (filter (\<lambda>r. item_id r = i) rs)"

definition update_toggle :: "js_string \<Rightarrow> fridge_item list statement" where
  "update_toggle p1 d =
     (case int_param p1 of Inl e \<Rightarrow> (Inl e, d) | Inr i \<Rightarrow>
      (Inr (map toggled (filter (\<lambda>r. item_id r = i) (fridge_items d))),
       d\<lparr>fridge_items := toggle_rows i (fridge_items d)\<rparr>))"

text \<open>\<^verbatim>\<open>DELETE FROM fridge_items WHERE id = $1 RETURNING *\<close>.\<close>

definition delete_item :: "js_string \<Rightarrow> fridge_item list statement" where
  "delete_item p1 d =
     (case int_param p1 of Inl e \<Rightarrow> (Inl e, d) | Inr i \<Rightarrow>
      (Inr (filter (\<lambda>r. item_id r = i) (fridge_items d)),
       d\<lparr>fridge_items := filter (\<lambda>r. item_id r \<noteq> i) (fridge_items d)\<rparr>))"

subsection \<open>The handlers\<close>

text \<open>
  A response is a status and a JSON body: an array of rows, one row,
  \<open>{message, deletedItem}\<close> or \<open>{error, details?}\<close>, where \<open>details\<close> is the message
  of the exception that the handler caught.
\<close>

datatype exn = TypeError | DatabaseError pg_error

datatype payload =
    Rows "fridge_item list"
  | Row fridge_item
  | Deleted string fridge_item
  | Error string "exn option"

datatype response = Response nat payload

definition database_error :: "exn \<Rightarrow> response" where
  "database_error e = Response 500 (Error ''Database error'' (Some e))"

text \<open>\<open>app.get('/api/items')\<close>\<close>

definition get_items :: "link \<Rightarrow> db \<Rightarrow> response \<times> db" where
  "get_items l d =
     (case pool_query l select_items d of
        (Inr rs, d') \<Rightarrow> (Response 200 (Rows rs), d')
      | (Inl e, d') \<Rightarrow> (database_error (DatabaseError e), d'))"

text \<open>
  \<open>name?.trim()\<close> is \<open>undefined\<close> for a name that is \<open>undefined\<close> or \<open>null\<close>, the
  trimmed string for a string, and a TypeError for every other value, which has no
  \<open>trim\<close> method. \<open>isInFridge ?? true\<close> is \<open>true\<close> for \<open>undefined\<close> and \<open>null\<close>.
\<close>

fun optional_trim :: "json option \<Rightarrow> exn + js_string option" where
  "optional_trim None = Inr None"
| "optional_trim (Some JNull) = Inr None"
| "optional_trim (Some (JString s)) = Inr (Some (trim s))"
| "optional_trim (Some v) = Inl TypeError"

fun nullish :: "json option \<Rightarrow> json \<Rightarrow> json" where
  "nullish None dflt = dflt"
| "nullish (Some JNull) dflt = dflt"
| "nullish (Some v) dflt = v"

text \<open>
  \<open>app.post('/api/items')\<close>. \<open>result.rows[0].name\<close> on an empty result would be a
  TypeError.
\<close>

definition post_items :: "link \<Rightarrow> int \<Rightarrow> db \<Rightarrow> post_body \<Rightarrow> response \<times> db" where
  "post_items l now d b =
     (case optional_trim (name_prop b) of
        Inl e \<Rightarrow> (database_error e, d)
      | Inr None \<Rightarrow> (Response 400 (Error ''Name is required'' None), d)
      | Inr (Some t) \<Rightarrow>
          if t = [] then (Response 400 (Error ''Name is required'' None), d)
          else (case pool_query l (insert_item now t (nullish (isInFridge_prop b) (JBool True))) d of
                  (Inl e, d') \<Rightarrow> (database_error (DatabaseError e), d')
                | (Inr [], d') \<Rightarrow> (database_error TypeError, d')
                | (Inr (r # rs), d') \<Rightarrow> (Response 201 (Row r), d')))"

text \<open>\<open>app.patch('/api/items/:id/toggle')\<close>; \<open>p\<close> is \<open>req.params.id\<close>.\<close>

definition patch_toggle :: "link \<Rightarrow> db \<Rightarrow> js_string \<Rightarrow> response \<times> db" where
  "patch_toggle l d p =
     (case pool_query l (update_toggle p) d of
        (Inl e, d') \<Rightarrow> (database_error (DatabaseError e), d')
      | (Inr [], d') \<Rightarrow> (Response 404 (Error ''Item not found'' None), d')
      | (Inr (r # rs), d') \<Rightarrow> (Response 200 (Row r), d'))"

text \<open>\<open>app.delete('/api/items/:id')\<close>\<close>

definition delete_items :: "link \<Rightarrow> db \<Rightarrow> js_string \<Rightarrow> response \<times> db" where
  "delete_items l d p =
     (case pool_query l (delete_item p) d of
        (Inl e, d') \<Rightarrow> (database_error (DatabaseError e), d')
      | (Inr [], d') \<Rightarrow> (Response 404 (Error ''Item not found'' None), d')
      | (Inr (r # rs), d') \<Rightarrow> (Response 200 (Deleted ''Item deleted'' r), d'))"

text \<open>
  A request as the server meets it: the route with its input, whether the pool reaches
  the database while it is handled and, for POST, the clock of the database.
\<close>

datatype request =
    GetItems
  | PostItem int post_body
  | ToggleItem js_string
  | DeleteItem js_string

fun handle :: "db \<Rightarrow> link \<times> request \<Rightarrow> response \<times> db" where
  "handle d (l, GetItems) = get_items l d"
| "handle d (l, PostItem now b) = post_items l now d b"
| "handle d (l, ToggleItem p) = patch_toggle l d p"
| "handle d (l, DeleteItem p) = delete_items l d p"

fun serve :: "db \<Rightarrow> (link \<times> request) list \<Rightarrow> db" where
  "serve d [] = d"
| "serve d (q # qs) = serve (snd (handle d q)) qs"

subsection \<open>Startup\<close>

text \<open>
  \<open>checkConnection\<close> starts with \<open>retries = 5\<close> and loops while \<open>retries\<close> is not zero:
  a probe that succeeds leaves the loop, a probe that fails takes one from \<open>retries\<close>
  and waits 5000 ms. \<open>env k\<close> tells whether the pool reaches the database for the
  \<open>k\<close>-th query the process sends. The run is recorded as the queries and waits in
  the order they happen.
\<close>

datatype event = Probe link | Delay nat | CreateTable link | Listen

fun checkConnection_loop :: "(nat \<Rightarrow> link) \<Rightarrow> nat \<Rightarrow> nat \<Rightarrow> event list" where
  "checkConnection_loop env retries k =
     (if retries = 0 then []
      else (case env k of
              Up \<Rightarrow> [Probe Up]
            | Down \<Rightarrow> Probe Down # Delay 5000 # checkConnection_loop env (retries - 1) (Suc k)))"

definition checkConnection :: "(nat \<Rightarrow> link) \<Rightarrow> event list" where
  "checkConnection env = checkConnection_loop env 5 0"

fun attempts :: "event list \<Rightarrow> nat" where
  "attempts [] = 0"
| "attempts (Probe l # es) = Suc (attempts es)"
| "attempts (e # es) = attempts es"

text \<open>
  \<open>createTable\<close> catches the error of its query; \<open>initializeApp\<close> awaits both and
  then calls \<open>app.listen\<close>.
\<close>

definition initializeApp :: "(nat \<Rightarrow> link) \<Rightarrow> event list" where
  "initializeApp env =
     (let t = checkConnection env in t @ [CreateTable (env (attempts t)), Listen])"

subsection \<open>Predicates used below\<close>

text \<open>
  The invariants of the data model: no stored name is empty or white space only, and no
  two stored rows have the same \<open>id\<close>.
\<close>

definition table_ok :: "db \<Rightarrow> bool" where
  "table_ok d \<longleftrightarrow>
     list_all (\<lambda>r. name r \<noteq> [] \<and> \<not> list_all is_white_space (name r)) (fridge_items d)
     \<and> distinct (map item_id (fridge_items d))"

text \<open>
  Text that reaches the server as it is written: no U+0000 and no unpaired surrogate.
  \<open>char_length\<close> is the number of characters, a surrogate pair counting once.
\<close>

definition valid_text :: "js_string \<Rightarrow> bool" where
  "valid_text s \<longleftrightarrow> text_in s = Inr s"

fun char_length :: "js_string \<Rightarrow> nat" where
  "char_length [] = 0"
| "char_length [u] = 1"
| "char_length (u # v # us) =
     (if is_lead u \<and> is_trail v then Suc (char_length us) else Suc (char_length (v # us)))"

text \<open>
  What holds of every row that the handlers store in a table that starts empty: its flag
  is not NULL and its id has been handed out by the sequence.
\<close>

definition api_state :: "db \<Rightarrow> bool" where
  "api_state d \<longleftrightarrow>
     list_all (\<lambda>r. is_in_fridge r \<noteq> None \<and> item_id r \<le> fridge_items_id_seq d)
       (fridge_items d)"

text \<open>The characters of which a decimal integer literal consists.\<close>

definition int_char :: "code_unit \<Rightarrow> bool" where
  "int_char c \<longleftrightarrow> is_digit c \<or> pg_isspace c \<or> c = 0x2D \<or> c = 0x2B"

text \<open>The decimal form in which a client writes an id into the path.\<close>

definition digit_of :: "nat \<Rightarrow> code_unit" where
  "digit_of d = word_of_nat (48 + d)"

fun decimal :: "nat \<Rightarrow> js_string" where
  "decimal n = (if n < 10 then [digit_of n] else decimal (n div 10) @ [digit_of (n mod 10)])"

definition int_toString :: "int \<Rightarrow> js_string" where
  "int_toString i = (if i < 0 then 0x2D # decimal (nat (- i)) else decimal (nat i))"

text \<open>The delays in a run of the startup, and an example table.\<close>

fun delays :: "event list \<Rightarrow> nat list" where
  "delays [] = []"
| "delays (Delay ms # es) = ms # delays es"
| "delays (e # es) = delays es"

definition milk :: fridge_item where
  "milk = \<lparr>item_id = 1, name = utf16 ''milk'', is_in_fridge = Some True, created_at = Some 0\<rparr>"

definition eggs :: fridge_item where
  "eggs = \<lparr>item_id = 2, name = utf16 ''eggs'', is_in_fridge = Some False, created_at = Some 0\<rparr>"

definition shelf :: db where
  "shelf = \<lparr>fridge_items = [milk, eggs], fridge_items_id_seq = 2\<rparr>"

section \<open>Properties\<close>

text \<open>
  The properties of the handlers are stated for requests that are served while the pool
  reaches the database (\<open>Up\<close>). When it does not, every query is rejected and the
  handler answers 500 without touching the database, as \<open>handlers_down\<close> records.
\<close>

subsection \<open>Trimming\<close>

lemma trim_blank: "list_all is_white_space s \<Longrightarrow> trim s = []"
proof -
  assume "list_all is_white_space s"
  then have "dropWhile is_white_space s = []"
    by (simp add: list_all_iff)
  then show ?thesis
    by (simp add: trim_def trimStart_def trimEnd_def del: dropWhile_eq_Nil_conv)
qed

lemma trimEnd_decomp: "s = trimEnd s @ rev (takeWhile is_white_space (rev s))"
proof -
  have "rev (takeWhile is_white_space (rev s) @ dropWhile is_white_space (rev s)) = s"
    by (simp only: takeWhile_dropWhile_id rev_rev_ident)
  then show ?thesis
    by (simp only: trimEnd_def rev_append)
qed

lemma trim_hd: "trim s \<noteq> [] \<Longrightarrow> \<not> is_white_space (hd (trim s))"
proof -
  assume ne: "trim s \<noteq> []"
  let ?t = "trimStart s"
  have t: "?t = trim s @ rev (takeWhile is_white_space (rev ?t))"
    unfolding trim_def by (rule trimEnd_decomp)
  with ne have "hd ?t = hd (trim s)"
    by (metis hd_append2)
  moreover from ne t have "?t \<noteq> []" by auto
  then have "\<not> is_white_space (hd ?t)"
    unfolding trimStart_def by (rule hd_dropWhile)
  ultimately show ?thesis by simp
qed

subsection \<open>Text parameters\<close>

lemma white_space_lone: "is_white_space (lone u) = is_white_space u"
  unfolding lone_def is_lead_def is_trail_def is_white_space_def
  by (auto simp: word_le_nat_alt)

lemma to_utf8_text_hd:
  "s \<noteq> [] \<Longrightarrow>
   to_utf8_text s \<noteq> [] \<and> is_white_space (hd (to_utf8_text s)) = is_white_space (hd s)"
  by (induction s rule: to_utf8_text.induct) (auto simp: white_space_lone)

lemma split_chars_hd:
  "s \<noteq> [] \<Longrightarrow> fst (split_chars (Suc n) s) \<noteq> [] \<and> hd (fst (split_chars (Suc n) s)) = hd s"
  by (cases s rule: to_utf8_text.cases) (auto split: prod.splits)

lemma varchar_hd: "varchar (Suc n) s = Inr nm \<Longrightarrow> s \<noteq> [] \<Longrightarrow> nm \<noteq> [] \<and> hd nm = hd s"
  using split_chars_hd [of s n]
  by (auto simp: varchar_def split: prod.splits if_splits)

lemma not_blank_hd: "nm \<noteq> [] \<Longrightarrow> \<not> is_white_space (hd nm) \<Longrightarrow> \<not> list_all is_white_space nm"
  by (cases nm) auto

lemma stored_name_not_blank:
  assumes "text_in (trim s) = Inr t" and "varchar 255 t = Inr nm" and "trim s \<noteq> []"
  shows "nm \<noteq> [] \<and> \<not> list_all is_white_space nm"
proof -
  from assms(1) have t: "t = to_utf8_text (trim s)"
    by (simp add: text_in_def split: if_splits)
  with to_utf8_text_hd [OF assms(3)] trim_hd [OF assms(3)]
  have "t \<noteq> []" "\<not> is_white_space (hd t)" by simp_all
  moreover have "varchar (Suc 254) t = Inr nm" using assms(2) by simp
  ultimately have "nm \<noteq> [] \<and> \<not> is_white_space (hd nm)"
    using varchar_hd [of 254 t nm] by simp
  then show ?thesis by (simp add: not_blank_hd)
qed

lemma char_length_0: "char_length s = 0 \<longleftrightarrow> s = []"
  by (cases s rule: char_length.cases) auto

lemma split_chars_fits: "char_length s \<le> n \<Longrightarrow> split_chars n s = (s, [])"
  by (induction n s rule: split_chars.induct) (auto simp: char_length_0 split: if_splits)

lemma varchar_fits: "char_length s \<le> n \<Longrightarrow> varchar n s = Inr s"
  by (simp add: varchar_def split_chars_fits)

lemma flag_param:
  assumes "f = None \<or> f = Some JNull \<or> (\<exists>v. f = Some (JBool v))"
  shows "bool_param (nullish f (JBool True))
         = Inr (Some (case f of Some (JBool v) \<Rightarrow> v | _ \<Rightarrow> True))"
  using assms by auto

text \<open>
  An integer parameter that the database accepts consists of digits, blanks and signs
  only; any other character makes the database reject it.
\<close>

lemma split_int_char:
  "list_all int_char (takeWhile P xs) \<Longrightarrow> list_all int_char (dropWhile P xs) \<Longrightarrow>
   list_all int_char xs"
  by (metis list_all_append takeWhile_dropWhile_id)

lemma take_digits: "list_all int_char (takeWhile is_digit xs)"
  by (induction xs) (auto simp: int_char_def)

lemma take_spaces: "list_all int_char (takeWhile pg_isspace xs)"
  by (induction xs) (auto simp: int_char_def)

lemma all_spaces: "dropWhile pg_isspace xs = [] \<Longrightarrow> list_all int_char xs"
  by (induction xs) (auto simp: int_char_def split: if_splits)

lemma int4in_chars:
  assumes "int4in t = Inr i"
  shows "list_all int_char t"
proof -
  define s1 where "s1 = dropWhile pg_isspace t"
  define s2 where "s2 = (if s1 \<noteq> [] \<and> (hd s1 = 0x2D \<or> hd s1 = 0x2B) then tl s1 else s1)"
  define rest where "rest = dropWhile is_digit s2"
  have "dropWhile pg_isspace rest = []"
  proof (rule ccontr)
    assume "dropWhile pg_isspace rest \<noteq> []"
    then have "\<exists>e. int4in t = Inl e"
      unfolding int4in_def Let_def rest_def s2_def s1_def by auto
    with assms show False by auto
  qed
  then have "list_all int_char rest" by (rule all_spaces)
  with take_digits [of s2] have s2: "list_all int_char s2"
    unfolding rest_def by (rule split_int_char)
  have s1: "list_all int_char s1"
  proof (cases "s1 \<noteq> [] \<and> (hd s1 = 0x2D \<or> hd s1 = 0x2B)")
    case True
    then have "s1 = hd s1 # s2" by (simp add: s2_def)
    moreover from True have "int_char (hd s1)" by (auto simp: int_char_def)
    ultimately show ?thesis using s2 by (metis list.pred_inject(2))
  next
    case False
    with s2 show ?thesis by (simp add: s2_def)
  qed
  with take_spaces [of t] show ?thesis
    unfolding s1_def by (rule split_int_char)
qed

lemma not_int_char_FFFD: "\<not> int_char 0xFFFD"
  by (simp add: int_char_def is_digit_def pg_isspace_def)

lemma to_utf8_text_set:
  "u \<in> set s \<Longrightarrow> u \<in> set (to_utf8_text s) \<or> 0xFFFD \<in> set (to_utf8_text s)"
  by (induction s rule: to_utf8_text.induct) (auto simp: lone_def)

lemma int_param_chars:
  assumes "int_param p = Inr i"
  shows "list_all int_char p"
proof -
  from assms have t: "int4in (to_utf8_text p) = Inr i"
    by (simp add: int_param_def text_in_def split: if_splits)
  then have all: "list_all int_char (to_utf8_text p)" by (rule int4in_chars)
  show ?thesis
    unfolding list_all_iff
  proof
    fix u assume "u \<in> set p"
    from to_utf8_text_set [OF this] all not_int_char_FFFD show "int_char u"
      by (auto simp: list_all_iff)
  qed
qed

lemma int_param_rejects: "\<not> list_all int_char p \<Longrightarrow> \<exists>e. int_param p = Inl e"
  using int_param_chars [of p] by (cases "int_param p") auto

text \<open>
  Every id within the range of the column, written in decimal, is read back by the
  database as that id; a literal beyond the range is rejected.
\<close>

declare decimal.simps [simp del]

lemma digit_char: "d < 10 \<Longrightarrow> is_digit (digit_of d) \<and> uint (digit_of d) = 48 + int d"
proof -
  assume "d < 10"
  then have "d \<in> {0,1,2,3,4,5,6,7,8,9}" by auto
  then show ?thesis
    by (auto simp: is_digit_def digit_of_def)
qed

lemma decimal_digits: "list_all is_digit (decimal n)"
  by (induction n rule: decimal.induct) (subst decimal.simps, simp add: digit_char)

lemma decimal_ne: "decimal n \<noteq> []"
  by (subst decimal.simps) simp

lemma digits_value_snoc: "digits_value (ds @ [c]) = digits_value ds * 10 + (uint c - 48)"
  by (simp add: digits_value_def)

lemma decimal_value: "digits_value (decimal n) = int n"
proof (induction n rule: decimal.induct)
  case (1 n)
  show ?case
  proof (cases "n < 10")
    case True
    then show ?thesis
      by (subst decimal.simps) (simp add: digits_value_def digit_char)
  next
    case False
    then have "digits_value (decimal (n div 10)) = int (n div 10)"
      using "1" by simp
    with False show ?thesis
      by (subst decimal.simps) (simp add: digits_value_snoc digit_char zdiv_int zmod_int)
  qed
qed

lemma digit_plain:
  "is_digit c \<Longrightarrow>
   c \<noteq> 0 \<and> lone c = c \<and> \<not> is_lead c \<and> \<not> pg_isspace c \<and> c \<noteq> 0x2D \<and> c \<noteq> 0x2B"
  unfolding is_digit_def lone_def is_lead_def is_trail_def pg_isspace_def
  by (auto simp: word_le_nat_alt)

lemma plain_text: "list_all (\<lambda>c. lone c = c \<and> \<not> is_lead c) s \<Longrightarrow> to_utf8_text s = s"
  by (induction s rule: to_utf8_text.induct) auto

lemma minus_plain:
  "(0x2D :: code_unit) \<noteq> 0 \<and> lone 0x2D = 0x2D \<and> \<not> is_lead 0x2D \<and> \<not> pg_isspace 0x2D
   \<and> \<not> is_digit 0x2D"
  by (simp add: lone_def is_lead_def is_trail_def pg_isspace_def is_digit_def)

lemma text_in_toString: "text_in (int_toString i) = Inr (int_toString i)"
proof -
  have d: "list_all (\<lambda>c. c \<noteq> 0 \<and> lone c = c \<and> \<not> is_lead c) (decimal n)" for n
    using decimal_digits [of n] by (auto simp: list_all_iff digit_plain)
  then have "list_all (\<lambda>c. c \<noteq> 0 \<and> lone c = c \<and> \<not> is_lead c) (int_toString i)"
    by (simp add: int_toString_def minus_plain)
  then have "0 \<notin> set (int_toString i)" "to_utf8_text (int_toString i) = int_toString i"
    by (auto simp: list_all_iff intro!: plain_text)
  then show ?thesis by (simp add: text_in_def)
qed

lemma int4in_digits:
  assumes "list_all is_digit ds" and "ds \<noteq> []"
    and "v = (if neg then - digits_value ds else digits_value ds)"
    and "- 2147483648 \<le> v" and "v \<le> 2147483647"
  shows "int4in ((if neg then [0x2D] else []) @ ds) = Inr v"
proof -
  from assms(2) obtain c cs where ds: "ds = c # cs" by (cases ds) auto
  with assms(1) have c: "is_digit c" by simp
  note p = digit_plain [OF c]
  have tw: "takeWhile is_digit ds = ds" and dw: "dropWhile is_digit ds = []"
    using assms(1) by (simp_all add: list_all_iff)
  let ?s = "(if neg then [0x2D] else []) @ ds"
  have s1: "dropWhile pg_isspace ?s = ?s"
    using p by (simp add: ds minus_plain)
  have s2: "(if ?s \<noteq> [] \<and> (hd ?s = 0x2D \<or> hd ?s = 0x2B) then tl ?s else ?s) = ds"
    using p by (simp add: ds)
  have neg: "(?s \<noteq> [] \<and> hd ?s = 0x2D) = neg"
    using p by (simp add: ds)
  show ?thesis
    unfolding int4in_def Let_def s1 s2 neg tw dw
    using assms(2-5) by simp
qed

lemma int_param_toString:
  assumes "- 2147483648 \<le> i" and "i \<le> 2147483647"
  shows "int_param (int_toString i) = Inr i"
proof -
  have "int4in (int_toString i) = Inr i"
  proof (cases "i < 0")
    case True
    then have "int_toString i = (if True then [0x2D] else []) @ decimal (nat (- i))"
      by (simp add: int_toString_def)
    moreover have "int4in ((if True then [0x2D] else []) @ decimal (nat (- i))) = Inr i"
      using True assms
      by (intro int4in_digits decimal_digits decimal_ne) (simp_all add: decimal_value)
    ultimately show ?thesis by simp
  next
    case False
    then have "int_toString i = (if False then [0x2D] else []) @ decimal (nat i)"
      by (simp add: int_toString_def)
    moreover have "int4in ((if False then [0x2D] else []) @ decimal (nat i)) = Inr i"
      using False assms
      by (intro int4in_digits decimal_digits decimal_ne) (simp_all add: decimal_value)
    ultimately show ?thesis by simp
  qed
  then show ?thesis
    by (simp add: int_param_def text_in_toString)
qed

lemma int_param_out_of_range:
  "int_param (utf16 ''2147483648'') = Inl NumericValueOutOfRange"
  by code_simp

subsection \<open>The statements\<close>

lemma desc_le_total: "\<not> desc_le a b \<Longrightarrow> desc_le b a"
  by (auto simp: desc_le_def split: option.splits)

lemma desc_le_trans: "desc_le a b \<Longrightarrow> desc_le b c \<Longrightarrow> desc_le a c"
  by (auto simp: desc_le_def split: option.splits)

lemma insert_desc_mset: "mset (insert_desc r qs) = add_mset r (mset qs)"
  by (induction qs) auto

lemma insert_desc_set: "set (insert_desc r qs) = insert r (set qs)"
  by (induction qs) auto

lemma insert_desc_sorted:
  "sorted_wrt (\<lambda>a b. desc_le (created_at a) (created_at b)) qs \<Longrightarrow>
   sorted_wrt (\<lambda>a b. desc_le (created_at a) (created_at b)) (insert_desc r qs)"
proof (induction qs)
  case Nil
  then show ?case by simp
next
  case (Cons q qs)
  show ?case
  proof (cases "desc_le (created_at r) (created_at q)")
    case True
    with Cons.prems show ?thesis
      by (auto intro: desc_le_trans)
  next
    case False
    then have "desc_le (created_at q) (created_at r)"
      by (rule desc_le_total)
    with False Cons show ?thesis
      by (auto simp: insert_desc_set)
  qed
qed

lemma order_by_mset: "mset (order_by_created_at_desc rs) = mset rs"
  unfolding order_by_created_at_desc_def
  by (induction rs) (auto simp: insert_desc_mset)

lemma order_by_set: "set (order_by_created_at_desc rs) = set rs"
  by (metis order_by_mset set_mset_mset)

lemma order_by_sorted:
  "sorted_wrt (\<lambda>a b. desc_le (created_at a) (created_at b)) (order_by_created_at_desc rs)"
  unfolding order_by_created_at_desc_def
  by (induction rs) (simp_all add: insert_desc_sorted)

lemma toggled_twice: "toggled (toggled r) = r"
  by (cases "is_in_fridge r") (simp_all add: toggled_def)

lemma item_id_toggled: "item_id (toggled r) = item_id r"
  by (simp add: toggled_def)

lemma name_toggled: "name (toggled r) = name r"
  by (simp add: toggled_def)

lemma created_at_toggled: "created_at (toggled r) = created_at r"
  by (simp add: toggled_def)

lemma no_match_filter: "i \<notin> item_id ` set rs \<Longrightarrow> filter (\<lambda>r. item_id r = i) rs = []"
  by (induction rs) auto

lemma no_match_keep: "i \<notin> item_id ` set rs \<Longrightarrow> filter (\<lambda>r. item_id r \<noteq> i) rs = rs"
  by (induction rs) auto

lemma filter_unique:
  "distinct (map item_id rs) \<Longrightarrow> r \<in> set rs \<Longrightarrow> filter (\<lambda>x. item_id x = item_id r) rs = [r]"
proof (induction rs)
  case Nil
  then show ?case by simp
next
  case (Cons a rs)
  show ?case
  proof (cases "a = r")
    case True
    with Cons.prems have "item_id r \<notin> item_id ` set rs" by simp
    then show ?thesis using True by (simp add: no_match_filter)
  next
    case False
    with Cons.prems have "r \<in> set rs" "item_id a \<noteq> item_id r" by auto
    with Cons show ?thesis by simp
  qed
qed

lemma toggle_rows_no_match: "i \<notin> item_id ` set rs \<Longrightarrow> toggle_rows i rs = rs"
  by (simp add: toggle_rows_def no_match_filter no_match_keep)

lemma toggle_rows_others:
  "filter (\<lambda>r. item_id r \<noteq> i) (toggle_rows i rs) = filter (\<lambda>r. item_id r \<noteq> i) rs"
  by (simp add: toggle_rows_def filter_map comp_def item_id_toggled)

lemma toggle_rows_hit:
  "filter (\<lambda>r. item_id r = i) (toggle_rows i rs) = map toggled (filter (\<lambda>r. item_id r = i) rs)"
  by (simp add: toggle_rows_def filter_map comp_def item_id_toggled)

lemma toggle_rows_mset:
  "mset (toggle_rows i rs) = image_mset (\<lambda>r. if item_id r = i then toggled r else r) (mset rs)"
  unfolding toggle_rows_def by (induction rs) simp_all

lemma toggle_rows_set:
  "set (toggle_rows i rs) = (\<lambda>r. if item_id r = i then toggled r else r) ` set rs"
proof -
  have "set_mset (mset (toggle_rows i rs))
        = set_mset (image_mset (\<lambda>r. if item_id r = i then toggled r else r) (mset rs))"
    by (simp only: toggle_rows_mset)
  then show ?thesis by simp
qed

lemma toggle_rows_ids: "mset (map item_id (toggle_rows i rs)) = mset (map item_id rs)"
  unfolding toggle_rows_def by (induction rs) (simp_all add: item_id_toggled)

lemma toggle_rows_distinct:
  "distinct (map item_id (toggle_rows i rs)) = distinct (map item_id rs)"
  by (rule mset_eq_imp_distinct_iff) (rule toggle_rows_ids)

lemma toggle_rows_unique:
  "distinct (map item_id rs) \<Longrightarrow> r \<in> set rs \<Longrightarrow>
   toggle_rows (item_id r) rs = filter (\<lambda>x. item_id x \<noteq> item_id r) rs @ [toggled r]"
  by (simp add: toggle_rows_def filter_unique)

lemma insert_item_rows:
  assumes "insert_item now t0 p2 d = (res, d1)"
  shows "fridge_items d1 = fridge_items d
         \<or> (\<exists>r t. text_in t0 = Inr t \<and> varchar 255 t = Inr (name r)
                  \<and> item_id r \<notin> item_id ` set (fridge_items d)
                  \<and> fridge_items d1 = fridge_items d @ [r])"
  using assms
  by (auto simp: insert_item_def Let_def split: sum.splits if_splits)

subsection \<open>The handlers, one query each\<close>

lemma get_items_Up:
  "get_items Up d = (Response 200 (Rows (order_by_created_at_desc (fridge_items d))), d)"
  by (simp add: get_items_def pool_query_def select_items_def)

lemma get_items_same: "snd (get_items l d) = d"
  by (cases l) (auto simp: get_items_def pool_query_def select_items_def)

lemma update_toggle_Up:
  "int_param p = Inr i \<Longrightarrow>
   pool_query Up (update_toggle p) d =
     (Inr (map toggled (filter (\<lambda>r. item_id r = i) (fridge_items d))),
      d\<lparr>fridge_items := toggle_rows i (fridge_items d)\<rparr>)"
  by (simp add: pool_query_def update_toggle_def)

lemma patch_toggle_found:
  assumes "int_param p = Inr (item_id r)" and "r \<in> set (fridge_items d)"
    and "distinct (map item_id (fridge_items d))"
  shows "patch_toggle Up d p =
           (Response 200 (Row (toggled r)),
            d\<lparr>fridge_items := toggle_rows (item_id r) (fridge_items d)\<rparr>)"
  using assms(1) filter_unique [OF assms(3) assms(2)]
  by (simp add: patch_toggle_def update_toggle_Up)

lemma patch_toggle_200:
  assumes "patch_toggle l d p = (Response 200 body, d1)"
  shows "\<exists>i. l = Up \<and> int_param p = Inr i
             \<and> d1 = d\<lparr>fridge_items := toggle_rows i (fridge_items d)\<rparr>"
  using assms
  by (cases l; cases "int_param p")
     (auto simp: patch_toggle_def pool_query_def update_toggle_def database_error_def
           split: list.splits)

lemma post_items_keeps: "mset (fridge_items d) \<subseteq># mset (fridge_items (snd (post_items l now d b)))"
  by (cases l)
     (auto simp: post_items_def pool_query_def insert_item_def Let_def
           split: sum.splits option.splits list.splits if_splits)

lemma delete_items_keeps: "mset (fridge_items (snd (delete_items l d p))) \<subseteq># mset (fridge_items d)"
  by (cases l; cases "int_param p")
     (auto simp: delete_items_def pool_query_def delete_item_def split: list.splits)

lemma handlers_down:
  "get_items Down d = (database_error (DatabaseError ConnectionFailure), d)"
  "patch_toggle Down d p = (database_error (DatabaseError ConnectionFailure), d)"
  "delete_items Down d p = (database_error (DatabaseError ConnectionFailure), d)"
  "name_prop b = Some (JString s) \<Longrightarrow> trim s \<noteq> [] \<Longrightarrow>
   post_items Down now d b = (database_error (DatabaseError ConnectionFailure), d)"
  by (simp_all add: get_items_def patch_toggle_def delete_items_def post_items_def pool_query_def)

subsection \<open>GET /api/items\<close>

text \<open>
  C6: in every state of the table GET /api/items answers 200 with an array that holds
  every stored row exactly once, sorted by \<open>created_at\<close> descending (NULL first). The
  order of rows with the same \<open>created_at\<close> is not fixed by the rows: \<open>milk\<close> and \<open>eggs\<close>
  have the same \<open>created_at\<close>, and two tables that hold just these two rows give
  different arrays.
\<close>

theorem get_items_sorted:
  "(\<exists>rs. get_items Up d = (Response 200 (Rows rs), d)
        \<and> mset rs = mset (fridge_items d)
        \<and> sorted_wrt (\<lambda>a b. desc_le (created_at a) (created_at b)) rs)
   \<and> created_at milk = created_at eggs
   \<and> fst (get_items Up \<lparr>fridge_items = [milk, eggs], fridge_items_id_seq = 2\<rparr>)
       = Response 200 (Rows [milk, eggs])
   \<and> fst (get_items Up \<lparr>fridge_items = [eggs, milk], fridge_items_id_seq = 2\<rparr>)
       = Response 200 (Rows [eggs, milk])"
proof -
  have "\<exists>rs. get_items Up d = (Response 200 (Rows rs), d)
        \<and> mset rs = mset (fridge_items d)
        \<and> sorted_wrt (\<lambda>a b. desc_le (created_at a) (created_at b)) rs"
    by (intro exI [of _ "order_by_created_at_desc (fridge_items d)"])
       (simp add: get_items_Up order_by_mset order_by_sorted)
  moreover have "created_at milk = created_at eggs"
    by (simp add: milk_def eggs_def)
  moreover have "fst (get_items Up \<lparr>fridge_items = [milk, eggs], fridge_items_id_seq = 2\<rparr>)
       = Response 200 (Rows [milk, eggs])"
    by (simp add: get_items_Up order_by_created_at_desc_def milk_def eggs_def desc_le_def)
  moreover have "fst (get_items Up \<lparr>fridge_items = [eggs, milk], fridge_items_id_seq = 2\<rparr>)
       = Response 200 (Rows [eggs, milk])"
    by (simp add: get_items_Up order_by_created_at_desc_def milk_def eggs_def desc_le_def)
  ultimately show ?thesis by blast
qed

subsection \<open>POST /api/items\<close>

text \<open>
  C2: a POST whose name is the empty string, consists of white space only, or is
  missing from the body (or is \<open>null\<close>) is answered with status 400 and
  \<open>{error: 'Name is required'}\<close>, and the database is left as it was. No query is
  sent, so this holds whether or not the pool reaches the database.
\<close>

theorem post_items_name_required:
  assumes "name_prop b = None \<or> name_prop b = Some JNull
           \<or> (\<exists>s. name_prop b = Some (JString s) \<and> list_all is_white_space s)"
  shows "post_items l now d b = (Response 400 (Error ''Name is required'' None), d)"
  using assms by (auto simp: post_items_def trim_blank)

theorem post_items_name_required_witness:
  "list_all is_white_space (utf16 ''   '')
   \<and> post_items Up 0 shelf \<lparr>name_prop = Some (JString (utf16 ''   '')), isInFridge_prop = None\<rparr>
      = (Response 400 (Error ''Name is required'' None), shelf)
   \<and> post_items Up 0 shelf \<lparr>name_prop = None, isInFridge_prop = None\<rparr>
      = (Response 400 (Error ''Name is required'' None), shelf)"
  using post_items_name_required
    [of "\<lparr>name_prop = Some (JString (utf16 ''   '')), isInFridge_prop = None\<rparr>" Up 0 shelf]
    post_items_name_required [of "\<lparr>name_prop = None, isInFridge_prop = None\<rparr>" Up 0 shelf]
  by (simp add: utf16_def is_white_space_def)

text \<open>
  C1, as stated: for every body whose name is a string that is non-empty after trimming,
  POST inserts one row and answers 201. The name of 256 letters \<open>a\<close> is non-empty after
  trimming, but does not fit \<open>VARCHAR(255)\<close>: the INSERT is rejected, the answer is
  500 and no row is stored.
\<close>

theorem post_items_creates_counterexample:
  "trim (replicate 256 0x61) \<noteq> []
   \<and> fst (post_items Up 0 \<lparr>fridge_items = [], fridge_items_id_seq = 0\<rparr>
             \<lparr>name_prop = Some (JString (replicate 256 0x61)), isInFridge_prop = None\<rparr>)
      = Response 500 (Error ''Database error'' (Some (DatabaseError StringDataRightTruncation)))
   \<and> fridge_items (snd (post_items Up 0 \<lparr>fridge_items = [], fridge_items_id_seq = 0\<rparr>
             \<lparr>name_prop = Some (JString (replicate 256 0x61)), isInFridge_prop = None\<rparr>))
      = []"
  by code_simp

text \<open>
  The INSERT is rejected as well when \<open>isInFridge\<close> is a value that the database does not
  read as a boolean, when the name contains U+0000, and when the next value of the
  sequence is already the id of a row; an unpaired surrogate in the name is stored as
  U+FFFD.
\<close>

lemma post_items_flag_rejected:
  "post_items Up 0 \<lparr>fridge_items = [], fridge_items_id_seq = 0\<rparr>
     \<lparr>name_prop = Some (JString (utf16 ''milk'')),
       isInFridge_prop = Some (JString (utf16 ''maybe''))\<rparr>
   = (Response 500 (Error ''Database error'' (Some (DatabaseError InvalidTextRepresentation))),
      \<lparr>fridge_items = [], fridge_items_id_seq = 0\<rparr>)"
  by code_simp

lemma post_items_nul_rejected:
  "post_items Up 0 \<lparr>fridge_items = [], fridge_items_id_seq = 0\<rparr>
     \<lparr>name_prop = Some (JString [0x61, 0, 0x62]), isInFridge_prop = None\<rparr>
   = (Response 500 (Error ''Database error'' (Some (DatabaseError CharacterNotInRepertoire))),
      \<lparr>fridge_items = [], fridge_items_id_seq = 0\<rparr>)"
  by code_simp

lemma post_items_duplicate_key:
  "fst (post_items Up 0 \<lparr>fridge_items = [milk], fridge_items_id_seq = 0\<rparr>
          \<lparr>name_prop = Some (JString (utf16 ''eggs'')), isInFridge_prop = None\<rparr>)
   = Response 500 (Error ''Database error'' (Some (DatabaseError UniqueViolation)))"
  by code_simp

lemma post_items_lone_surrogate:
  "fst (post_items Up 0 \<lparr>fridge_items = [], fridge_items_id_seq = 0\<rparr>
          \<lparr>name_prop = Some (JString [0xD800]), isInFridge_prop = None\<rparr>)
   = Response 201 (Row \<lparr>item_id = 1, name = [0xFFFD], is_in_fridge = Some True,
                        created_at = Some 0\<rparr>)"
  by code_simp

text \<open>
  C1, amended: for every body whose name is a string that, after trimming, is non-empty,
  is valid text (no U+0000, no unpaired surrogate) and has at most 255 characters, and
  whose \<open>isInFridge\<close> is a boolean, absent or \<open>null\<close>, in a state where the next value of
  the id sequence is within the range of the column and is not the id of a stored row,
  POST /api/items inserts exactly one new row, whose name is the trimmed input and whose
  \<open>is_in_fridge\<close> is the supplied boolean, or true when \<open>isInFridge\<close> is absent or
  \<open>null\<close>, and answers 201 with that row; a GET that follows returns the rows stored
  before together with exactly that one new row.
\<close>

theorem post_items_creates:
  assumes "name_prop b = Some (JString s)"
    and "trim s \<noteq> []"
    and "valid_text (trim s)"
    and "char_length (trim s) \<le> 255"
    and "isInFridge_prop b = None \<or> isInFridge_prop b = Some JNull
         \<or> (\<exists>v. isInFridge_prop b = Some (JBool v))"
    and "fridge_items_id_seq d < 2147483647"
    and "fridge_items_id_seq d + 1 \<notin> item_id ` set (fridge_items d)"
  shows "\<exists>r d1 rs.
           post_items Up now d b = (Response 201 (Row r), d1)
         \<and> name r = trim s
         \<and> is_in_fridge r = Some (case isInFridge_prop b of Some (JBool v) \<Rightarrow> v | _ \<Rightarrow> True)
         \<and> fridge_items d1 = fridge_items d @ [r]
         \<and> r \<notin> set (fridge_items d)
         \<and> get_items Up d1 = (Response 200 (Rows rs), d1)
         \<and> mset rs = add_mset r (mset (fridge_items d))"
proof -
  let ?i = "fridge_items_id_seq d + 1"
  let ?v = "case isInFridge_prop b of Some (JBool v) \<Rightarrow> v | _ \<Rightarrow> True"
  let ?r = "\<lparr>item_id = ?i, name = trim s, is_in_fridge = Some ?v, created_at = Some now\<rparr>"
  let ?d1 = "d\<lparr>fridge_items_id_seq := ?i, fridge_items := fridge_items d @ [?r]\<rparr>"
  have ins: "insert_item now (trim s) (nullish (isInFridge_prop b) (JBool True)) d
             = (Inr [?r], ?d1)"
    using assms(3,4,6,7) flag_param [OF assms(5)]
    by (simp add: insert_item_def valid_text_def varchar_fits Let_def)
  have post: "post_items Up now d b = (Response 201 (Row ?r), ?d1)"
    using assms(1,2) ins by (simp add: post_items_def pool_query_def)
  have new: "?r \<notin> set (fridge_items d)"
    using assms(7) by (auto simp: image_iff)
  show ?thesis
    using post new
    by (intro exI [of _ ?r] exI [of _ ?d1]
          exI [of _ "order_by_created_at_desc (fridge_items ?d1)"])
       (simp add: get_items_Up order_by_mset)
qed

theorem post_items_creates_witness:
  "trim (utf16 '' cheese '') = utf16 ''cheese''
   \<and> valid_text (utf16 ''cheese'') \<and> char_length (utf16 ''cheese'') \<le> 255
   \<and> fridge_items_id_seq shelf < 2147483647
   \<and> fridge_items_id_seq shelf + 1 \<notin> item_id ` set (fridge_items shelf)
   \<and> (\<exists>r d1 rs.
         post_items Up 7 shelf
           \<lparr>name_prop = Some (JString (utf16 '' cheese '')), isInFridge_prop = Some (JBool False)\<rparr>
           = (Response 201 (Row r), d1)
       \<and> name r = utf16 ''cheese''
       \<and> is_in_fridge r = Some False
       \<and> fridge_items d1 = fridge_items shelf @ [r]
       \<and> r \<notin> set (fridge_items shelf)
       \<and> get_items Up d1 = (Response 200 (Rows rs), d1)
       \<and> mset rs = add_mset r (mset (fridge_items shelf)))"
proof -
  have t: "trim (utf16 '' cheese '') = utf16 ''cheese''"
    by code_simp
  have h2: "trim (utf16 '' cheese '') \<noteq> []"
    by code_simp
  have h3: "valid_text (trim (utf16 '' cheese ''))"
    by code_simp
  have h4: "char_length (trim (utf16 '' cheese '')) \<le> 255"
    by code_simp
  have h6: "fridge_items_id_seq shelf < 2147483647"
    by (simp add: shelf_def)
  have h7: "fridge_items_id_seq shelf + 1 \<notin> item_id ` set (fridge_items shelf)"
    by (simp add: shelf_def milk_def eggs_def)
  let ?b = "\<lparr>name_prop = Some (JString (utf16 '' cheese '')),
              isInFridge_prop = Some (JBool False)\<rparr>"
  have h1: "name_prop ?b = Some (JString (utf16 '' cheese ''))"
    by simp
  have h5: "isInFridge_prop ?b = None \<or> isInFridge_prop ?b = Some JNull
            \<or> (\<exists>v. isInFridge_prop ?b = Some (JBool v))"
    by auto
  show ?thesis
    using h3 h4 h6 h7 post_items_creates [OF h1 h2 h3 h4 h5 h6 h7, of 7]
    by (simp add: t)
qed

subsection \<open>PATCH /api/items/:id/toggle\<close>

lemma same_id_same_row:
  "distinct (map item_id rs) \<Longrightarrow> x \<in> set rs \<Longrightarrow> y \<in> set rs \<Longrightarrow> item_id x = item_id y \<Longrightarrow>
   x = y"
  by (auto simp: distinct_map dest: inj_onD)

lemma toggle_once:
  assumes "distinct (map item_id (fridge_items d))"
    and "r \<in> set (fridge_items d)"
    and "int_param p = Inr (item_id r)"
  shows "\<exists>d1. patch_toggle Up d p = (Response 200 (Row (toggled r)), d1)
            \<and> toggled r \<in> set (fridge_items d1)
            \<and> (\<forall>x\<in>set (fridge_items d1). item_id x = item_id r \<longrightarrow> x = toggled r)
            \<and> distinct (map item_id (fridge_items d1))"
proof -
  let ?d1 = "d\<lparr>fridge_items := toggle_rows (item_id r) (fridge_items d)\<rparr>"
  have first: "patch_toggle Up d p = (Response 200 (Row (toggled r)), ?d1)"
    by (rule patch_toggle_found [OF assms(3) assms(2) assms(1)])
  have stored: "toggled r \<in> set (fridge_items ?d1)"
    using assms(2) by (auto simp: toggle_rows_set intro!: image_eqI [where x = r])
  have only: "x = toggled r" if "x \<in> set (fridge_items ?d1)" and "item_id x = item_id r" for x
  proof -
    from that(1) obtain y where y: "y \<in> set (fridge_items d)"
      "x = (if item_id y = item_id r then toggled y else y)"
      by (auto simp: toggle_rows_set)
    with that(2) have "item_id y = item_id r"
      by (auto simp: item_id_toggled split: if_splits)
    with y(1) assms(1,2) have "y = r"
      by (auto dest: same_id_same_row)
    with y(2) show ?thesis by simp
  qed
  have "distinct (map item_id (fridge_items ?d1))"
    using assms(1) by (simp add: toggle_rows_distinct)
  with first stored only show ?thesis by blast
qed

text \<open>
  A row whose flag is NULL is outside the tables that the handlers fill; its toggle
  answers 200 and leaves the flag NULL, which is why the property below speaks of
  tables in which every flag is a boolean.
\<close>

lemma toggle_null_flag:
  "fst (patch_toggle Up
     \<lparr>fridge_items = [\<lparr>item_id = 1, name = utf16 ''milk'', is_in_fridge = None,
                         created_at = Some 0\<rparr>],
       fridge_items_id_seq = 1\<rparr> (utf16 ''1''))
   = Response 200 (Row \<lparr>item_id = 1, name = utf16 ''milk'', is_in_fridge = None,
                        created_at = Some 0\<rparr>)"
  by code_simp

text \<open>
  C3: in a table as the handlers fill it, where every flag is a boolean and every id
  identifies one row, for every row PATCH /api/items/:id/toggle with that row's id
  answers 200 with the row, its \<open>is_in_fridge\<close> negated, and that is then the only
  stored row of the id, so that a single toggle never leaves the flag as it was; a
  second toggle with the same id answers 200 with the row as it was at first, and that is
  again the only stored row of the id.
\<close>

theorem toggle_flips:
  assumes "api_state d"
    and "distinct (map item_id (fridge_items d))"
    and "r \<in> set (fridge_items d)"
    and "int_param p = Inr (item_id r)"
  shows "\<exists>v q d1 d2.
           is_in_fridge r = Some v
         \<and> q = r\<lparr>is_in_fridge := Some (\<not> v)\<rparr>
         \<and> is_in_fridge q \<noteq> is_in_fridge r
         \<and> patch_toggle Up d p = (Response 200 (Row q), d1)
         \<and> q \<in> set (fridge_items d1)
         \<and> (\<forall>x\<in>set (fridge_items d1). item_id x = item_id r \<longrightarrow> x = q)
         \<and> patch_toggle Up d1 p = (Response 200 (Row r), d2)
         \<and> r \<in> set (fridge_items d2)
         \<and> (\<forall>x\<in>set (fridge_items d2). item_id x = item_id r \<longrightarrow> x = r)"
proof -
  from assms(1,3) obtain v where v: "is_in_fridge r = Some v"
    by (auto simp: api_state_def list_all_iff)
  let ?q = "r\<lparr>is_in_fridge := Some (\<not> v)\<rparr>"
  have q: "toggled r = ?q"
    using v by (simp add: toggled_def)
  have ne: "is_in_fridge ?q \<noteq> is_in_fridge r"
    using v by simp
  from toggle_once [OF assms(2) assms(3) assms(4)] obtain d1 where
    d1: "patch_toggle Up d p = (Response 200 (Row ?q), d1)"
      "?q \<in> set (fridge_items d1)"
      "\<forall>x\<in>set (fridge_items d1). item_id x = item_id r \<longrightarrow> x = ?q"
      "distinct (map item_id (fridge_items d1))"
    unfolding q by blast
  have p: "int_param p = Inr (item_id ?q)"
    using assms(4) by simp
  have r: "toggled ?q = r"
    unfolding q [symmetric] by (rule toggled_twice)
  from toggle_once [OF d1(4) d1(2) p] obtain d2 where
    d2: "patch_toggle Up d1 p = (Response 200 (Row r), d2)"
      "r \<in> set (fridge_items d2)"
      "\<forall>x\<in>set (fridge_items d2). item_id x = item_id r \<longrightarrow> x = r"
    unfolding r by auto
  from v ne d1(1-3) d2 show ?thesis
    by blast
qed

theorem toggle_flips_witness:
  "api_state shelf
   \<and> distinct (map item_id (fridge_items shelf))
   \<and> milk \<in> set (fridge_items shelf)
   \<and> int_param (utf16 ''1'') = Inr (item_id milk)
   \<and> (\<exists>v q d1 d2.
         is_in_fridge milk = Some v
       \<and> q = milk\<lparr>is_in_fridge := Some (\<not> v)\<rparr>
       \<and> is_in_fridge q \<noteq> is_in_fridge milk
       \<and> patch_toggle Up shelf (utf16 ''1'') = (Response 200 (Row q), d1)
       \<and> q \<in> set (fridge_items d1)
       \<and> (\<forall>x\<in>set (fridge_items d1). item_id x = item_id milk \<longrightarrow> x = q)
       \<and> patch_toggle Up d1 (utf16 ''1'') = (Response 200 (Row milk), d2)
       \<and> milk \<in> set (fridge_items d2)
       \<and> (\<forall>x\<in>set (fridge_items d2). item_id x = item_id milk \<longrightarrow> x = milk))"
proof -
  have h1: "api_state shelf"
    by code_simp
  have h2: "distinct (map item_id (fridge_items shelf))"
    by (simp add: shelf_def milk_def eggs_def)
  have h3: "milk \<in> set (fridge_items shelf)"
    by (simp add: shelf_def)
  have h4: "int_param (utf16 ''1'') = Inr (item_id milk)"
    by code_simp
  from h1 h2 h3 h4 toggle_flips [OF h1 h2 h3 h4] show ?thesis
    by blast
qed

text \<open>
  C7: a PATCH toggle that answers 200 changes only \<open>is_in_fridge\<close>, and only in rows of
  the requested id: the rows of every other id are the rows that were stored before,
  and the table holds the same rows as before when each row is read by its \<open>id\<close>,
  \<open>name\<close> and \<open>created_at\<close>. No other handler changes a stored row: GET leaves the
  database as it is, after a POST every row stored before is still stored, and after a
  DELETE every stored row is a row that was stored before.
\<close>

theorem toggle_frame:
  "(patch_toggle l d p = (Response 200 body, d1) \<longrightarrow>
      (\<exists>i. int_param p = Inr i
          \<and> mset (filter (\<lambda>x. item_id x \<noteq> i) (fridge_items d1))
            = mset (filter (\<lambda>x. item_id x \<noteq> i) (fridge_items d))
          \<and> image_mset (\<lambda>x. (item_id x, name x, created_at x)) (mset (fridge_items d1))
            = image_mset (\<lambda>x. (item_id x, name x, created_at x)) (mset (fridge_items d))))
   \<and> snd (get_items l d) = d
   \<and> mset (fridge_items d) \<subseteq># mset (fridge_items (snd (post_items l now d b)))
   \<and> mset (fridge_items (snd (delete_items l d p2))) \<subseteq># mset (fridge_items d)"
proof -
  have "\<exists>i. int_param p = Inr i
          \<and> mset (filter (\<lambda>x. item_id x \<noteq> i) (fridge_items d1))
            = mset (filter (\<lambda>x. item_id x \<noteq> i) (fridge_items d))
          \<and> image_mset (\<lambda>x. (item_id x, name x, created_at x)) (mset (fridge_items d1))
            = image_mset (\<lambda>x. (item_id x, name x, created_at x)) (mset (fridge_items d))"
    if "patch_toggle l d p = (Response 200 body, d1)"
  proof -
    from patch_toggle_200 [OF that] obtain i where
      i: "int_param p = Inr i" "d1 = d\<lparr>fridge_items := toggle_rows i (fridge_items d)\<rparr>"
      by blast
    have others: "mset (filter (\<lambda>x. item_id x \<noteq> i) (fridge_items d1))
            = mset (filter (\<lambda>x. item_id x \<noteq> i) (fridge_items d))"
      by (simp add: i(2) toggle_rows_others)
    have "image_mset (\<lambda>x. (item_id x, name x, created_at x)) (mset (toggle_rows i rs))
          = image_mset (\<lambda>x. (item_id x, name x, created_at x)) (mset rs)" for rs
      unfolding toggle_rows_def
      by (induction rs) (simp_all add: item_id_toggled name_toggled created_at_toggled)
    then have "image_mset (\<lambda>x. (item_id x, name x, created_at x)) (mset (fridge_items d1))
            = image_mset (\<lambda>x. (item_id x, name x, created_at x)) (mset (fridge_items d))"
      by (simp add: i(2))
    with i(1) others show ?thesis by blast
  qed
  then show ?thesis
    by (simp add: get_items_same post_items_keeps delete_items_keeps)
qed

theorem toggle_frame_witness:
  "patch_toggle Up shelf (utf16 ''1'')
     = (Response 200 (Row (toggled milk)), shelf\<lparr>fridge_items := [eggs, toggled milk]\<rparr>)
   \<and> int_param (utf16 ''1'') = Inr 1
   \<and> mset (filter (\<lambda>x. item_id x \<noteq> 1) (fridge_items (shelf\<lparr>fridge_items := [eggs, toggled milk]\<rparr>)))
     = mset (filter (\<lambda>x. item_id x \<noteq> 1) (fridge_items shelf))
   \<and> image_mset (\<lambda>x. (item_id x, name x, created_at x))
       (mset (fridge_items (shelf\<lparr>fridge_items := [eggs, toggled milk]\<rparr>)))
     = image_mset (\<lambda>x. (item_id x, name x, created_at x)) (mset (fridge_items shelf))"
proof -
  have h: "patch_toggle Up shelf (utf16 ''1'')
     = (Response 200 (Row (toggled milk)), shelf\<lparr>fridge_items := [eggs, toggled milk]\<rparr>)"
    by code_simp
  have n: "int_param (utf16 ''1'') = Inr 1"
    by code_simp
  from toggle_frame [of Up shelf "utf16 ''1''" "Row (toggled milk)"
      "shelf\<lparr>fridge_items := [eggs, toggled milk]\<rparr>"] h
  obtain i where i: "int_param (utf16 ''1'') = Inr i"
    "mset (filter (\<lambda>x. item_id x \<noteq> i) (fridge_items (shelf\<lparr>fridge_items := [eggs, toggled milk]\<rparr>)))
     = mset (filter (\<lambda>x. item_id x \<noteq> i) (fridge_items shelf))"
    "image_mset (\<lambda>x. (item_id x, name x, created_at x))
       (mset (fridge_items (shelf\<lparr>fridge_items := [eggs, toggled milk]\<rparr>)))
     = image_mset (\<lambda>x. (item_id x, name x, created_at x)) (mset (fridge_items shelf))"
    by blast
  from i(1) n have "i = 1" by simp
  with i(2,3) h n show ?thesis by blast
qed

subsection \<open>DELETE /api/items/:id\<close>

text \<open>
  C5: for every row of the table, DELETE /api/items/:id with that row's id answers 200
  with \<open>{message: 'Item deleted', deletedItem}\<close>, where \<open>deletedItem\<close> is a stored row of
  that id, and the row itself since ids are unique under the primary key; a GET that
  follows answers with the rows of other ids only, so without that row, and a second
  DELETE with the same id answers 404.
\<close>

theorem delete_removes:
  assumes "r \<in> set (fridge_items d)"
    and "int_param p = Inr (item_id r)"
  shows "\<exists>q d1 rs.
           delete_items Up d p = (Response 200 (Deleted ''Item deleted'' q), d1)
         \<and> q \<in> set (fridge_items d) \<and> item_id q = item_id r
         \<and> (distinct (map item_id (fridge_items d)) \<longrightarrow> q = r)
         \<and> get_items Up d1 = (Response 200 (Rows rs), d1)
         \<and> r \<notin> set rs \<and> q \<notin> set rs
         \<and> set rs = set (fridge_items d) - {x. item_id x = item_id r}
         \<and> delete_items Up d1 p = (Response 404 (Error ''Item not found'' None), d1)"
proof -
  let ?i = "item_id r"
  let ?hit = "filter (\<lambda>x. item_id x = ?i) (fridge_items d)"
  let ?d1 = "d\<lparr>fridge_items := filter (\<lambda>x. item_id x \<noteq> ?i) (fridge_items d)\<rparr>"
  from assms(1) have "r \<in> set ?hit" by simp
  then obtain q qs where hit: "?hit = q # qs"
    by (cases ?hit) auto
  then have "q \<in> set ?hit" by simp
  then have q: "q \<in> set (fridge_items d)" "item_id q = ?i" by simp_all
  have del: "delete_items Up d p = (Response 200 (Deleted ''Item deleted'' q), ?d1)"
    using assms(2) hit by (simp add: delete_items_def pool_query_def delete_item_def)
  have uniq: "q = r" if "distinct (map item_id (fridge_items d))"
    using filter_unique [OF that assms(1)] hit by simp
  have "?i \<notin> item_id ` set (fridge_items ?d1)" by auto
  then have gone: "delete_items Up ?d1 p = (Response 404 (Error ''Item not found'' None), ?d1)"
    using assms(2)
    by (simp add: delete_items_def pool_query_def delete_item_def no_match_filter)
  have rs: "set (order_by_created_at_desc (fridge_items ?d1))
            = set (fridge_items d) - {x. item_id x = ?i}"
    by (auto simp: order_by_set)
  show ?thesis
    using del q uniq gone rs
    by (intro exI [of _ q] exI [of _ ?d1]
          exI [of _ "order_by_created_at_desc (fridge_items ?d1)"])
       (simp add: get_items_Up)
qed

theorem delete_removes_witness:
  "milk \<in> set (fridge_items shelf)
   \<and> int_param (utf16 ''1'') = Inr (item_id milk)
   \<and> distinct (map item_id (fridge_items shelf))
   \<and> (\<exists>d1 rs.
         delete_items Up shelf (utf16 ''1'') = (Response 200 (Deleted ''Item deleted'' milk), d1)
       \<and> get_items Up d1 = (Response 200 (Rows rs), d1)
       \<and> milk \<notin> set rs
       \<and> delete_items Up d1 (utf16 ''1'') = (Response 404 (Error ''Item not found'' None), d1))"
proof -
  have h1: "milk \<in> set (fridge_items shelf)"
    by (simp add: shelf_def)
  have h2: "int_param (utf16 ''1'') = Inr (item_id milk)"
    by code_simp
  have h3: "distinct (map item_id (fridge_items shelf))"
    by (simp add: shelf_def milk_def eggs_def)
  from h1 h2 h3 delete_removes [OF h1 h2] show ?thesis
    by blast
qed

subsection \<open>Requests for an id that the table does not hold\<close>

text \<open>
  C4, as stated: every PATCH toggle or DELETE whose id matches no row is answered with
  404 and \<open>{error: 'Item not found'}\<close>, and the table is unchanged. The id \<open>abc\<close>
  matches no row of an empty table, but the statement is rejected and the answer is 500.
\<close>

theorem unknown_id_not_found_counterexample:
  "fridge_items \<lparr>fridge_items = [], fridge_items_id_seq = 0\<rparr> = []
   \<and> patch_toggle Up \<lparr>fridge_items = [], fridge_items_id_seq = 0\<rparr> (utf16 ''abc'')
       = (Response 500 (Error ''Database error'' (Some (DatabaseError InvalidTextRepresentation))),
          \<lparr>fridge_items = [], fridge_items_id_seq = 0\<rparr>)
   \<and> delete_items Up \<lparr>fridge_items = [], fridge_items_id_seq = 0\<rparr> (utf16 ''abc'')
       = (Response 500 (Error ''Database error'' (Some (DatabaseError InvalidTextRepresentation))),
          \<lparr>fridge_items = [], fridge_items_id_seq = 0\<rparr>)"
  by code_simp

text \<open>
  C4, amended: every PATCH toggle or DELETE whose id the database reads as an integer
  that is the id of no row is answered with 404 and \<open>{error: 'Item not found'}\<close>, and
  the database is exactly what it was.
\<close>

theorem unknown_id_not_found:
  assumes "int_param p = Inr i"
    and "i \<notin> item_id ` set (fridge_items d)"
  shows "patch_toggle Up d p = (Response 404 (Error ''Item not found'' None), d)
         \<and> delete_items Up d p = (Response 404 (Error ''Item not found'' None), d)"
  using assms
  by (simp add: patch_toggle_def delete_items_def pool_query_def update_toggle_def
      delete_item_def toggle_rows_no_match no_match_filter no_match_keep)

theorem unknown_id_not_found_witness:
  "int_param (utf16 ''7'') = Inr 7
   \<and> 7 \<notin> item_id ` set (fridge_items shelf)
   \<and> patch_toggle Up shelf (utf16 ''7'') = (Response 404 (Error ''Item not found'' None), shelf)
   \<and> delete_items Up shelf (utf16 ''7'') = (Response 404 (Error ''Item not found'' None), shelf)"
proof -
  have h1: "int_param (utf16 ''7'') = Inr 7"
    by code_simp
  have h2: "7 \<notin> item_id ` set (fridge_items shelf)"
    by (simp add: shelf_def milk_def eggs_def)
  from h1 h2 unknown_id_not_found [OF h1 h2] show ?thesis
    by blast
qed

text \<open>
  C10: when the id of a PATCH toggle or DELETE is not an integer the database can read
  (such as \<open>abc\<close>), the string itself is the statement's parameter, the statement is
  rejected, the handler catches the rejection and answers 500 with
  \<open>{error: 'Database error', details}\<close> carrying the database's message, not 404; the
  database is unchanged.
\<close>

theorem malformed_id_database_error:
  assumes "int_param p = Inl e"
  shows "patch_toggle Up d p
           = (Response 500 (Error ''Database error'' (Some (DatabaseError e))), d)
         \<and> delete_items Up d p
           = (Response 500 (Error ''Database error'' (Some (DatabaseError e))), d)"
  using assms
  by (simp add: patch_toggle_def delete_items_def pool_query_def update_toggle_def
      delete_item_def database_error_def)

theorem malformed_id_database_error_witness:
  "int_param (utf16 ''abc'') = Inl InvalidTextRepresentation
   \<and> patch_toggle Up shelf (utf16 ''abc'')
      = (Response 500 (Error ''Database error'' (Some (DatabaseError InvalidTextRepresentation))),
         shelf)
   \<and> delete_items Up shelf (utf16 ''abc'')
      = (Response 500 (Error ''Database error'' (Some (DatabaseError InvalidTextRepresentation))),
         shelf)"
proof -
  have h: "int_param (utf16 ''abc'') = Inl InvalidTextRepresentation"
    by code_simp
  from h malformed_id_database_error [OF h] show ?thesis
    by blast
qed

subsection \<open>The invariants of the table\<close>

lemma table_ok_append:
  assumes "table_ok d" and "fridge_items d1 = fridge_items d @ [r]"
    and "name r \<noteq> [] \<and> \<not> list_all is_white_space (name r)"
    and "item_id r \<notin> item_id ` set (fridge_items d)"
  shows "table_ok d1"
  using assms by (simp add: table_ok_def)

lemma table_ok_same: "table_ok d \<Longrightarrow> fridge_items d1 = fridge_items d \<Longrightarrow> table_ok d1"
  by (simp add: table_ok_def)

lemma post_items_table_ok:
  assumes "table_ok d"
  shows "table_ok (snd (post_items l now d b))"
proof (cases "optional_trim (name_prop b)")
  case (Inl e)
  with assms show ?thesis by (simp add: post_items_def)
next
  case (Inr ot)
  show ?thesis
  proof (cases ot)
    case None
    with Inr assms show ?thesis by (simp add: post_items_def)
  next
    case (Some t0)
    show ?thesis
    proof (cases "t0 = []")
      case True
      with Inr Some assms show ?thesis by (simp add: post_items_def)
    next
      case False
      from Inr Some obtain s where s: "t0 = trim s"
        by (cases "name_prop b" rule: optional_trim.cases) auto
      let ?q = "insert_item now t0 (nullish (isInFridge_prop b) (JBool True))"
      have snd_eq: "snd (post_items l now d b) = snd (pool_query l ?q d)"
        using Inr Some False
        by (simp add: post_items_def split: prod.splits sum.splits list.splits)
      show ?thesis
      proof (cases l)
        case Down
        with snd_eq assms show ?thesis by (simp add: pool_query_def)
      next
        case Up
        obtain res d1 where q: "?q d = (res, d1)" by (cases "?q d")
        with Up snd_eq have d1: "snd (post_items l now d b) = d1"
          by (simp add: pool_query_def)
        from insert_item_rows [OF q] show ?thesis
        proof
          assume "fridge_items d1 = fridge_items d"
          with assms d1 show ?thesis by (simp add: table_ok_same)
        next
          assume "\<exists>r t. text_in t0 = Inr t \<and> varchar 255 t = Inr (name r)
                  \<and> item_id r \<notin> item_id ` set (fridge_items d)
                  \<and> fridge_items d1 = fridge_items d @ [r]"
          then obtain r t where r: "text_in t0 = Inr t" "varchar 255 t = Inr (name r)"
            "item_id r \<notin> item_id ` set (fridge_items d)"
            "fridge_items d1 = fridge_items d @ [r]"
            by blast
          from stored_name_not_blank [of s t "name r"] r(1,2) False s
          have "name r \<noteq> [] \<and> \<not> list_all is_white_space (name r)" by simp
          with table_ok_append [OF assms r(4) _ r(3)] d1 show ?thesis by simp
        qed
      qed
    qed
  qed
qed

lemma toggle_table_ok:
  assumes "table_ok d"
  shows "table_ok (d\<lparr>fridge_items := toggle_rows i (fridge_items d)\<rparr>)"
proof -
  have "name r \<noteq> [] \<and> \<not> list_all is_white_space (name r)"
    if "r \<in> set (toggle_rows i (fridge_items d))" for r
    using that assms by (auto simp: toggle_rows_set table_ok_def list_all_iff name_toggled)
  with assms show ?thesis
    by (simp add: table_ok_def list_all_iff toggle_rows_distinct)
qed

lemma patch_toggle_table_ok:
  assumes "table_ok d"
  shows "table_ok (snd (patch_toggle l d p))"
  using assms toggle_table_ok [OF assms]
  by (cases l; cases "int_param p")
     (auto simp: patch_toggle_def pool_query_def update_toggle_def split: list.splits)

lemma delete_items_table_ok:
  assumes "table_ok d"
  shows "table_ok (snd (delete_items l d p))"
proof -
  have "table_ok (d\<lparr>fridge_items := filter (\<lambda>r. item_id r \<noteq> i) (fridge_items d)\<rparr>)" for i
    using assms by (auto simp: table_ok_def list_all_iff distinct_map_filter)
  with assms show ?thesis
    by (cases l; cases "int_param p")
       (auto simp: delete_items_def pool_query_def delete_item_def split: list.splits)
qed

lemma handle_table_ok: "table_ok d \<Longrightarrow> table_ok (snd (handle d q))"
  by (cases "(d, q)" rule: handle.cases)
     (simp_all add: get_items_same post_items_table_ok patch_toggle_table_ok
        delete_items_table_ok)

lemma serve_table_ok: "table_ok d \<Longrightarrow> table_ok (serve d qs)"
  by (induction qs arbitrary: d) (simp_all add: handle_table_ok)

lemma served_from_empty_ok:
  "table_ok (serve \<lparr>fridge_items = [], fridge_items_id_seq = 0\<rparr> qs)"
  by (rule serve_table_ok) (simp add: table_ok_def)

text \<open>
  C8: from a state in which every stored name is neither empty nor white space only and
  every id identifies one row, each of POST, PATCH toggle and DELETE, with any input and
  whether or not the pool reaches the database, leads to such a state again, and so does
  every sequence of requests.
\<close>

theorem invariant_preserved:
  assumes "table_ok d"
  shows "table_ok (snd (post_items l now d b))
         \<and> table_ok (snd (patch_toggle l d p))
         \<and> table_ok (snd (delete_items l d p))
         \<and> table_ok (serve d qs)"
  using assms
  by (simp add: post_items_table_ok patch_toggle_table_ok delete_items_table_ok serve_table_ok)

theorem invariant_preserved_witness:
  "table_ok shelf
   \<and> table_ok (snd (post_items Up 7 shelf
        \<lparr>name_prop = Some (JString (utf16 '' cheese '')), isInFridge_prop = None\<rparr>))
   \<and> table_ok (snd (patch_toggle Up shelf (utf16 ''1'')))
   \<and> table_ok (snd (delete_items Up shelf (utf16 ''2'')))
   \<and> table_ok (serve shelf
        [(Up, PostItem 7 \<lparr>name_prop = Some (JString (utf16 '' cheese '')),
                           isInFridge_prop = None\<rparr>),
         (Up, ToggleItem (utf16 ''3'')), (Down, GetItems), (Up, DeleteItem (utf16 ''1''))])"
proof -
  have h: "table_ok shelf"
    by code_simp
  from h invariant_preserved [OF h] show ?thesis
    by blast
qed

subsection \<open>Tables filled through the handlers\<close>

text \<open>
  The handlers store no NULL flag and no id beyond the sequence: in every state reached
  from the empty table by requests alone, every flag is a boolean and the next value of
  the sequence is the id of no row.
\<close>

lemma nullish_not_null: "bool_param (nullish f (JBool True)) \<noteq> Inr None"
  by (cases "(f, JBool True)" rule: nullish.cases) (auto split: sum.splits if_splits)

lemma insert_item_state:
  assumes "insert_item now t0 p2 d = (res, d1)"
  shows "(fridge_items d1 = fridge_items d \<and> fridge_items_id_seq d \<le> fridge_items_id_seq d1)
         \<or> (\<exists>r. fridge_items d1 = fridge_items d @ [r]
                \<and> fridge_items_id_seq d1 = fridge_items_id_seq d + 1
                \<and> item_id r = fridge_items_id_seq d1
                \<and> bool_param p2 = Inr (is_in_fridge r))"
  using assms
  by (auto simp: insert_item_def Let_def split: sum.splits if_splits)

lemma post_items_api_state:
  assumes "api_state d"
  shows "api_state (snd (post_items l now d b))"
proof -
  have ins: "api_state d1"
    if "insert_item now t (nullish (isInFridge_prop b) (JBool True)) d = (res, d1)"
    for t res d1
    using insert_item_state [OF that] assms nullish_not_null [of "isInFridge_prop b"]
    by (fastforce simp: api_state_def list_all_iff)
  show ?thesis
    using assms ins
    by (cases l)
       (auto simp: post_items_def pool_query_def
             split: sum.splits option.splits list.splits prod.splits)
qed

lemma toggle_api_state:
  assumes "api_state d"
  shows "api_state (d\<lparr>fridge_items := toggle_rows i (fridge_items d)\<rparr>)"
  using assms by (auto simp: api_state_def list_all_iff toggle_rows_set toggled_def)

lemma patch_toggle_api_state:
  assumes "api_state d"
  shows "api_state (snd (patch_toggle l d p))"
  using assms toggle_api_state [OF assms]
  by (cases l; cases "int_param p")
     (auto simp: patch_toggle_def pool_query_def update_toggle_def split: list.splits)

lemma delete_items_api_state:
  assumes "api_state d"
  shows "api_state (snd (delete_items l d p))"
proof -
  have "api_state (d\<lparr>fridge_items := filter (\<lambda>r. item_id r \<noteq> i) (fridge_items d)\<rparr>)" for i
    using assms by (auto simp: api_state_def list_all_iff)
  with assms show ?thesis
    by (cases l; cases "int_param p")
       (auto simp: delete_items_def pool_query_def delete_item_def split: list.splits)
qed

lemma handle_api_state: "api_state d \<Longrightarrow> api_state (snd (handle d q))"
  by (cases "(d, q)" rule: handle.cases)
     (simp_all add: get_items_same post_items_api_state patch_toggle_api_state
        delete_items_api_state)

lemma serve_api_state: "api_state d \<Longrightarrow> api_state (serve d qs)"
  by (induction qs arbitrary: d) (simp_all add: handle_api_state)

lemma served_from_empty:
  "api_state (serve \<lparr>fridge_items = [], fridge_items_id_seq = 0\<rparr> qs)"
  by (rule serve_api_state) (simp add: api_state_def)

lemma api_state_fresh:
  "api_state d \<Longrightarrow> fridge_items_id_seq d + 1 \<notin> item_id ` set (fridge_items d)"
  by (auto simp: api_state_def list_all_iff)

lemma api_state_flag:
  "api_state d \<Longrightarrow> r \<in> set (fridge_items d) \<Longrightarrow> \<exists>v. is_in_fridge r = Some v"
  by (auto simp: api_state_def list_all_iff)

subsection \<open>Startup\<close>

lemma loop_shape:
  "\<exists>n\<le>r. checkConnection_loop env r k
            = concat (replicate n [Probe Down, Delay 5000]) @ (if n < r then [Probe Up] else [])
         \<and> (\<forall>j<n. env (k + j) = Down) \<and> (n < r \<longrightarrow> env (k + n) = Up)"
proof (induction r arbitrary: k)
  case 0
  show ?case by simp
next
  case (Suc r)
  show ?case
  proof (cases "env k")
    case Up
    then show ?thesis
      by (intro exI [of _ 0]) simp
  next
    case Down
    from Suc [of "Suc k"] obtain n where n: "n \<le> r"
      "checkConnection_loop env r (Suc k)
         = concat (replicate n [Probe Down, Delay 5000]) @ (if n < r then [Probe Up] else [])"
      "\<forall>j<n. env (Suc k + j) = Down" "n < r \<longrightarrow> env (Suc k + n) = Up"
      by blast
    have "\<forall>j<Suc n. env (k + j) = Down"
    proof (intro allI impI)
      fix j assume "j < Suc n"
      then show "env (k + j) = Down"
        using Down n(3) by (cases j) auto
    qed
    with Down n(1,2,4) show ?thesis
      by (intro exI [of _ "Suc n"]) simp
  qed
qed

lemma attempts_append: "attempts (xs @ ys) = attempts xs + attempts ys"
  by (induction xs rule: attempts.induct) simp_all

lemma attempts_fails: "attempts (concat (replicate n [Probe Down, Delay 5000])) = n"
  by (induction n) simp_all

lemma delays_append: "delays (xs @ ys) = delays xs @ delays ys"
  by (induction xs rule: delays.induct) simp_all

lemma delays_fails: "delays (concat (replicate n [Probe Down, Delay 5000])) = replicate n 5000"
  by (induction n) simp_all

text \<open>
  C9: \<open>checkConnection\<close> probes the database and repeats a probe that failed, after a
  delay of 5000 ms, for at most 5 probes in all: its run is \<open>n \<le> 5\<close> failed probes, each
  followed by the delay, and then the probe that succeeded if \<open>n < 5\<close>. It returns for
  every behaviour of the database, and \<open>initializeApp\<close> goes on to create the table and
  to listen, also when all 5 probes failed.
\<close>

theorem checkConnection_bounded:
  "\<exists>n\<le>5.
      checkConnection env
        = concat (replicate n [Probe Down, Delay 5000]) @ (if n < 5 then [Probe Up] else [])
    \<and> (\<forall>j<n. env j = Down) \<and> (n < 5 \<longrightarrow> env n = Up)
    \<and> attempts (checkConnection env) = (if n < 5 then n + 1 else 5)
    \<and> delays (checkConnection env) = replicate n 5000
    \<and> initializeApp env
        = checkConnection env @ [CreateTable (env (attempts (checkConnection env))), Listen]"
proof -
  from loop_shape [of 5 env 0] obtain n where n: "n \<le> 5"
    "checkConnection env
       = concat (replicate n [Probe Down, Delay 5000]) @ (if n < 5 then [Probe Up] else [])"
    "\<forall>j<n. env j = Down" "n < 5 \<longrightarrow> env n = Up"
    unfolding checkConnection_def by auto
  have a: "attempts (checkConnection env) = (if n < 5 then n + 1 else 5)"
    using n(1) by (simp add: n(2) attempts_append attempts_fails)
  have d: "delays (checkConnection env) = replicate n 5000"
    by (simp add: n(2) delays_append delays_fails)
  have i: "initializeApp env
      = checkConnection env @ [CreateTable (env (attempts (checkConnection env))), Listen]"
    by (simp add: initializeApp_def Let_def)
  from n a d i show ?thesis by blast
qed

theorem checkConnection_bounded_witness:
  "checkConnection (\<lambda>k. Down)
     = [Probe Down, Delay 5000, Probe Down, Delay 5000, Probe Down, Delay 5000,
        Probe Down, Delay 5000, Probe Down, Delay 5000]
   \<and> initializeApp (\<lambda>k. Down)
     = [Probe Down, Delay 5000, Probe Down, Delay 5000, Probe Down, Delay 5000,
        Probe Down, Delay 5000, Probe Down, Delay 5000, CreateTable Down, Listen]"
proof -
  from checkConnection_bounded [of "\<lambda>k. Down"] obtain n where n: "n \<le> 5"
    "checkConnection (\<lambda>k. Down)
       = concat (replicate n [Probe Down, Delay 5000]) @ (if n < 5 then [Probe Up] else [])"
    "n < 5 \<longrightarrow> Down = Up"
    "initializeApp (\<lambda>k. Down) = checkConnection (\<lambda>k. Down) @ [CreateTable Down, Listen]"
    by auto
  from n(1,3) have "n = 5" by auto
  with n(2,4) show ?thesis by (simp add: numeral_eq_Suc)
qed

end
